theory Spec2Isabelle
  imports Main
begin

section \<open>Strings, sets and labels of \<^verbatim>\<open>final_export.py\<close>\<close>

text \<open>
  A Python \<^verbatim>\<open>str\<close> is a sequence of Unicode code points; indexing, length and
  equality all work on code points, never on bytes. A code point is a natural number,
  a string the list of its code points.
\<close>

type_synonym codepoint = nat
type_synonym pystr = "codepoint list"

text \<open>
  A Python \<^verbatim>\<open>set\<close> of strings is given by the list of its elements in the order
  in which a \<^verbatim>\<open>for\<close> loop visits them. That order is chosen by the interpreter
  (string hashes are salted per process), so no theorem below may rely on it:
  membership is \<open>w \<in> set V\<close>, and results about the vocabulary are stated for every
  enumeration of the same set.
\<close>

type_synonym pyset = "pystr list"

text \<open>The two string constants that \<^verbatim>\<open>classify_word\<close> returns.\<close>

definition CorrectSpelling :: string where
  "CorrectSpelling = ''correct spelling''"

definition IncorrectSpelling :: string where
  "IncorrectSpelling = ''incorrect spelling''"

section \<open>The edit distance\<close>

text \<open>
  Modelled from the spec: \<^verbatim>\<open>distance\<close> is imported from the package
  \<^verbatim>\<open>Levenshtein\<close> (line 17), whose code is not part of the source file. The spec
  asks for the standard Levenshtein distance, a dynamic-programming table over the two
  strings in code points, with unit cost for an insertion, a deletion and a
  substitution and no normalisation. The definition below is the recurrence that fills
  that table: the cell for two empty remainders of the strings is the length of the
  other one, and every other cell is the minimum of its three neighbours plus the cost
  of the step.
\<close>

fun distance :: "pystr \<Rightarrow> pystr \<Rightarrow> nat" where
  "distance [] b = length b"
| "distance a [] = length a"
| "distance (x # a) (y # b) =
     min (min (distance a (y # b) + 1) (distance (x # a) b + 1))
         (distance a b + (if x = y then 0 else 1))"

section \<open>Classification\<close>

text \<open>The local constant of \<^verbatim>\<open>classify_word\<close> (line 75).\<close>

definition MAX_EDIT_DISTANCE :: nat where
  "MAX_EDIT_DISTANCE = 1"

text \<open>
  The loop of lines 81 to 84, over the elements of \<^verbatim>\<open>correct_set\<close> that are still
  to be visited. It carries the flag \<^verbatim>\<open>is_typo\<close> and the set object itself, and
  returns both: a \<^verbatim>\<open>break\<close> leaves the loop with the flag set, the end of the
  iteration leaves it with the flag as it was. The bound is a parameter of the loop;
  \<^verbatim>\<open>classify_word\<close> runs it with \<open>MAX_EDIT_DISTANCE\<close>.
\<close>

fun typo_loop :: "pystr \<Rightarrow> nat \<Rightarrow> pystr list \<Rightarrow> bool \<Rightarrow> pyset \<Rightarrow> bool \<times> pyset" where
  "typo_loop word d [] is_typo correct_set = (is_typo, correct_set)"
| "typo_loop word d (correct_word # rest) is_typo correct_set =
     (if distance word correct_word \<le> d then (True, correct_set)
      else typo_loop word d rest is_typo correct_set)"

text \<open>
  \<^verbatim>\<open>classify_word\<close> (lines 67 to 92) with the set object threaded through: the result
  is the returned label and the set as the call leaves it.
\<close>

definition classify_word_st :: "pystr \<Rightarrow> pyset \<Rightarrow> string \<times> pyset" where
  "classify_word_st word correct_set =
     (if word \<in> set correct_set then (''correct spelling'', correct_set)
      else
        (case typo_loop word MAX_EDIT_DISTANCE correct_set False correct_set of
           (is_typo, correct_set') \<Rightarrow>
             if is_typo then (''incorrect spelling'', correct_set')
             else (''incorrect spelling'', correct_set')))"

text \<open>The value that \<^verbatim>\<open>classify_word\<close> returns.\<close>

definition classify_word :: "pystr \<Rightarrow> pyset \<Rightarrow> string" where
  "classify_word word correct_set = fst (classify_word_st word correct_set)"

text \<open>
  The bounded neighbour search of the spec, \<^verbatim>\<open>hasNeighborWithinDistance\<close>: in the
  source it is the value of \<^verbatim>\<open>is_typo\<close> after the loop, started at \<^verbatim>\<open>False\<close>
  (line 77).
\<close>

definition hasNeighborWithinDistance :: "pyset \<Rightarrow> pystr \<Rightarrow> nat \<Rightarrow> bool" where
  "hasNeighborWithinDistance correct_set word d =
     fst (typo_loop word d correct_set False correct_set)"

section \<open>Classification with exceptions\<close>

text \<open>
  \<^verbatim>\<open>classify_word\<close> has no \<^verbatim>\<open>raise\<close> and no \<^verbatim>\<open>try\<close>. On a string and a set of
  strings its own statements cannot fail: the membership test hashes a string, the
  loop reads a set that its body does not change, and the comparison is between two
  integers. The one place an exception can come from is the call of the imported
  \<^verbatim>\<open>distance\<close> (line 82), and an exception raised there leaves \<^verbatim>\<open>classify_word\<close>
  unhandled. This second, finer model makes that visible: the imported function is a
  parameter that returns a number or raises.
\<close>

datatype py_exception = PyException string

fun typo_loop_exc ::
  "(pystr \<Rightarrow> pystr \<Rightarrow> py_exception + nat) \<Rightarrow> pystr \<Rightarrow> nat \<Rightarrow> pystr list \<Rightarrow> bool
     \<Rightarrow> py_exception + bool" where
  "typo_loop_exc dist word d [] is_typo = Inr is_typo"
| "typo_loop_exc dist word d (correct_word # rest) is_typo =
     (case dist word correct_word of
        Inl e \<Rightarrow> Inl e
      | Inr n \<Rightarrow>
          if n \<le> d then Inr True
          else typo_loop_exc dist word d rest is_typo)"

definition classify_word_exc ::
  "(pystr \<Rightarrow> pystr \<Rightarrow> py_exception + nat) \<Rightarrow> pystr \<Rightarrow> pyset \<Rightarrow> py_exception + string" where
  "classify_word_exc dist word correct_set =
     (if word \<in> set correct_set then Inr ''correct spelling''
      else
        (case typo_loop_exc dist word MAX_EDIT_DISTANCE correct_set False of
           Inl e \<Rightarrow> Inl e
         | Inr is_typo \<Rightarrow>
             if is_typo then Inr ''incorrect spelling''
             else Inr ''incorrect spelling''))"

text \<open>
  Modelled from the spec: a call of the imported \<^verbatim>\<open>distance\<close> on two strings. The
  spec gives the distance no failure mode: it is defined for every pair of strings,
  the empty string included, whose distance to a string is that string's length.
\<close>

definition distance_call :: "pystr \<Rightarrow> pystr \<Rightarrow> py_exception + nat" where
  "distance_call a b = Inr (distance a b)"

section \<open>The hard-coded reference vocabulary\<close>

text \<open>
  The two set literals of lines 26 to 35, word by word in the order of the source, each
  word as its code points in hexadecimal (the words are Devanagari, U+0900 to U+097F).
  No word occurs twice and the two sets are disjoint.
\<close>

definition HINDI_CORE_WORDS :: pyset where
  "HINDI_CORE_WORDS =
     [[0x92C, 0x93E, 0x924],
      [0x939, 0x94B, 0x924, 0x93E],
      [0x915, 0x93F],
      [0x91C, 0x928, 0x91C, 0x93E, 0x924, 0x93F],
      [0x92A, 0x948, 0x938, 0x93E],
      [0x932, 0x94B, 0x917],
      [0x926, 0x947, 0x916, 0x928, 0x93E],
      [0x925, 0x93E],
      [0x905, 0x92C],
      [0x905, 0x91A, 0x94D, 0x91B, 0x93E],
      [0x915, 0x93E, 0x930, 0x923],
      [0x91C, 0x940, 0x935, 0x928],
      [0x938, 0x939, 0x940],
      [0x915, 0x93F, 0x924, 0x93E, 0x92C],
      [0x938, 0x94D, 0x915, 0x942, 0x932],
      [0x909, 0x927, 0x930],
      [0x909, 0x928, 0x94D, 0x939, 0x947, 0x902],
      [0x909, 0x928, 0x915, 0x94B],
      [0x91A, 0x93E, 0x939, 0x93F, 0x90F],
      [0x915, 0x941, 0x91B],
      [0x92E, 0x948, 0x92E],
      [0x926, 0x947, 0x936],
      [0x92D, 0x93E, 0x930, 0x924],
      [0x91A, 0x93E, 0x939, 0x924, 0x947],
      [0x935, 0x939, 0x93E, 0x902],
      [0x924, 0x930, 0x92B],
      [0x915, 0x93E, 0x92E]]"

definition CODE_SWITCHED_WORDS :: pyset where
  "CODE_SWITCHED_WORDS =
     [[0x92A, 0x94D, 0x930, 0x94B, 0x91C, 0x947, 0x915, 0x94D, 0x91F],
      [0x90F, 0x930, 0x93F, 0x92F, 0x93E],
      [0x90F, 0x91F, 0x940, 0x91F, 0x94D, 0x92F, 0x942, 0x921],
      [0x92E, 0x948, 0x928, 0x947, 0x91C, 0x930],
      [0x91F, 0x947, 0x915, 0x94D, 0x928, 0x94B, 0x932, 0x949, 0x91C, 0x940],
      [0x907, 0x902, 0x91F, 0x930, 0x928, 0x947, 0x91F],
      [0x915, 0x902, 0x92A, 0x94D, 0x92F, 0x942, 0x91F, 0x930],
      [0x921, 0x947, 0x91F, 0x93E],
      [0x92B, 0x93E, 0x907, 0x932],
      [0x915, 0x92E, 0x947, 0x902, 0x91F],
      [0x932, 0x948, 0x92A, 0x91F, 0x949, 0x92A],
      [0x938, 0x94D, 0x91F, 0x942, 0x921, 0x947, 0x902, 0x91F],
      [0x91F, 0x94D, 0x930, 0x948, 0x92B, 0x93F, 0x915],
      [0x91F, 0x949, 0x92A, 0x93F, 0x915],
      [0x915, 0x94D, 0x932, 0x93E, 0x938, 0x947, 0x938],
      [0x907, 0x92E, 0x94D, 0x92A, 0x94D, 0x930, 0x942, 0x935, 0x92E, 0x947, 0x902, 0x91F]]"

text \<open>
  \<^verbatim>\<open>CORRECT_WORDS = HINDI_CORE_WORDS.union(CODE_SWITCHED_WORDS)\<close> (line 36): one
  enumeration of the union.
\<close>

definition CORRECT_WORDS :: pyset where
  "CORRECT_WORDS = List.union HINDI_CORE_WORDS CODE_SWITCHED_WORDS"

section \<open>Edit scripts\<close>

text \<open>
  The glossary of the spec defines the edit distance in words: the minimum number of
  single-character insertions, deletions or substitutions that transform one string
  into the other. This section writes that sentence down, to compare it with
  \<open>distance\<close>. An edit names the position it works at; it fails on a position
  outside the string.
\<close>

datatype edit = Insertion nat codepoint | Deletion nat | Substitution nat codepoint

fun apply_edit :: "edit \<Rightarrow> pystr \<Rightarrow> pystr option" where
  "apply_edit (Insertion i c) s =
     (if i \<le> length s then Some (take i s @ c # drop i s) else None)"
| "apply_edit (Deletion i) s =
     (if i < length s then Some (take i s @ drop (Suc i) s) else None)"
| "apply_edit (Substitution i c) s =
     (if i < length s then Some (s[i := c]) else None)"

text \<open>A script is a list of edits, applied one after the other; each costs one.\<close>

fun apply_edits :: "edit list \<Rightarrow> pystr \<Rightarrow> pystr option" where
  "apply_edits [] s = Some s"
| "apply_edits (e # es) s =
     (case apply_edit e s of None \<Rightarrow> None | Some s' \<Rightarrow> apply_edits es s')"

text \<open>The same edit one position further right, for a string with one more character in front.\<close>

fun shift_edit :: "edit \<Rightarrow> edit" where
  "shift_edit (Insertion i c) = Insertion (Suc i) c"
| "shift_edit (Deletion i) = Deletion (Suc i)"
| "shift_edit (Substitution i c) = Substitution (Suc i) c"

text \<open>
  Two strings that differ by a single edit, without the position: an edit at the front,
  or the same edit behind a common first character.
\<close>

inductive one_edit :: "pystr \<Rightarrow> pystr \<Rightarrow> bool" where
  ins: "one_edit a (c # a)"
| del: "one_edit (c # a) a"
| sub: "one_edit (c # a) (c' # a)"
| step: "one_edit a b \<Longrightarrow> one_edit (c # a) (c # b)"

code_pred (modes: i \<Rightarrow> i \<Rightarrow> bool) one_edit .

section \<open>Basic facts\<close>

lemma labels_differ: "CorrectSpelling \<noteq> IncorrectSpelling"
  by (simp add: CorrectSpelling_def IncorrectSpelling_def)

lemma typo_loop_set: "snd (typo_loop word d rest is_typo V) = V"
  by (induction rest) simp_all

lemma typo_loop_flag:
  "fst (typo_loop word d rest is_typo V)
     = (is_typo \<or> (\<exists>v \<in> set rest. distance word v \<le> d))"
proof (induction rest)
  case Nil
  show ?case by simp
next
  case (Cons v rest)
  show ?case
  proof (cases "distance word v \<le> d")
    case True
    then show ?thesis by simp
  next
    case False
    with Cons show ?thesis by simp
  qed
qed

lemma classify_word_eq:
  "classify_word word V
     = (if word \<in> set V then CorrectSpelling else IncorrectSpelling)"
  by (simp add: classify_word_def classify_word_st_def CorrectSpelling_def
      IncorrectSpelling_def split: prod.split)

lemma classify_word_st_set: "snd (classify_word_st word V) = V"
proof (cases "word \<in> set V")
  case True
  then show ?thesis by (simp add: classify_word_st_def)
next
  case False
  obtain f V' where r: "typo_loop word MAX_EDIT_DISTANCE V False V = (f, V')"
    by (cases "typo_loop word MAX_EDIT_DISTANCE V False V")
  have "snd (typo_loop word MAX_EDIT_DISTANCE V False V) = V"
    by (rule typo_loop_set)
  with r have "V' = V" by simp
  with False r show ?thesis by (simp add: classify_word_st_def)
qed

lemma typo_loop_exc_returns:
  "(\<forall>v \<in> set rest. \<exists>n. dist word v = Inr n) \<Longrightarrow>
     \<exists>f. typo_loop_exc dist word d rest is_typo = Inr f"
proof (induction rest)
  case Nil
  show ?case by simp
next
  case (Cons v rest)
  from Cons.prems obtain n where n: "dist word v = Inr n" by auto
  from Cons.prems have "\<forall>v \<in> set rest. \<exists>n. dist word v = Inr n" by simp
  then obtain f where "typo_loop_exc dist word d rest is_typo = Inr f"
    using Cons.IH by blast
  with n show ?case by auto
qed

lemma typo_loop_exc_raises:
  "dist word v = Inl e \<Longrightarrow> typo_loop_exc dist word d (v # rest) is_typo = Inl e"
  by simp

lemma classify_word_exc_raises:
  "word \<notin> set (v # V) \<Longrightarrow> dist word v = Inl e \<Longrightarrow>
     classify_word_exc dist word (v # V) = Inl e"
  by (simp add: classify_word_exc_def)

lemma typo_loop_exc_distance_call:
  "typo_loop_exc distance_call word d rest is_typo
     = Inr (fst (typo_loop word d rest is_typo V))"
  by (induction rest) (simp_all add: distance_call_def)

lemma classify_word_exc_distance_call:
  "classify_word_exc distance_call word V = Inr (classify_word word V)"
proof (cases "word \<in> set V")
  case True
  then show ?thesis
    by (simp add: classify_word_exc_def classify_word_eq CorrectSpelling_def)
next
  case False
  then show ?thesis
    by (simp add: classify_word_exc_def classify_word_eq IncorrectSpelling_def
        typo_loop_exc_distance_call [where V = V])
qed

lemma classify_word_exc_returns:
  assumes "\<forall>v \<in> set V. \<exists>n. dist t v = Inr n"
  shows "classify_word_exc dist t V = Inr CorrectSpelling \<or>
         classify_word_exc dist t V = Inr IncorrectSpelling"
proof (cases "t \<in> set V")
  case True
  then show ?thesis by (simp add: classify_word_exc_def CorrectSpelling_def)
next
  case False
  from assms obtain f where "typo_loop_exc dist t MAX_EDIT_DISTANCE V False = Inr f"
    using typo_loop_exc_returns by blast
  with False show ?thesis by (simp add: classify_word_exc_def IncorrectSpelling_def)
qed

lemma distance_same: "distance a a = 0"
  by (induction a) simp_all

section \<open>The distance and single edits\<close>

lemma distance_Nil_right: "distance a [] = length a"
  by (cases a) simp_all

lemma distance_Cons_left: "distance (x # a) b \<le> distance a b + 1"
  by (cases b) (simp_all add: distance_Nil_right)

lemma distance_Cons_right: "distance a (y # b) \<le> distance a b + 1"
  by (cases a) simp_all

lemma distance_Cons_Cons: "distance (x # a) (y # b) \<le> distance a b + 1"
  by (simp add: min_def)

lemma distance_Cons_same: "distance (x # a) (x # b) \<le> distance a b"
  by simp

lemma one_edit_sym: "one_edit a c \<Longrightarrow> one_edit c a"
  by (induction rule: one_edit.induct) (auto intro: one_edit.intros)

lemma distance_del: "distance a b \<le> distance (x # a) b + 1"
proof (induction b)
  case Nil
  show ?case by (simp add: distance_Nil_right)
next
  case (Cons y b)
  have "distance a (y # b) \<le> distance a b + 1" by (rule distance_Cons_right)
  with Cons show ?case by (simp add: min_def)
qed

lemma distance_sub: "distance (y # a) b \<le> distance (x # a) b + 1"
proof (induction b)
  case Nil
  show ?case by simp
next
  case (Cons z b)
  have 1: "distance (y # a) (z # b) \<le> distance a (z # b) + 1" by (rule distance_Cons_left)
  have 2: "distance (y # a) (z # b) \<le> distance (y # a) b + 1" by (rule distance_Cons_right)
  have 3: "distance (y # a) (z # b) \<le> distance a b + 1" by (rule distance_Cons_Cons)
  have e: "distance (x # a) (z # b) = distance a (z # b) + 1 \<or>
    distance (x # a) (z # b) = distance (x # a) b + 1 \<or>
    distance (x # a) (z # b) = distance a b + (if x = z then 0 else 1)"
    by (simp add: min_def)
  from 1 2 3 e Cons show ?case by linarith
qed

lemma distance_one_edit:
  "one_edit a c \<Longrightarrow> distance c b \<le> distance a b + 1"
proof (induction arbitrary: b rule: one_edit.induct)
  case (ins a c)
  show ?case by (rule distance_Cons_left)
next
  case (del c a)
  show ?case by (rule distance_del)
next
  case (sub c a c')
  show ?case by (rule distance_sub)
next
  case (step a c x)
  show ?case
  proof (induction b)
    case Nil
    from step.IH [of "[]"] show ?case by (simp add: distance_Nil_right)
  next
    case (Cons y b)
    have 1: "distance (x # c) (y # b) \<le> distance c (y # b) + 1" by (rule distance_Cons_left)
    have 2: "distance (x # c) (y # b) \<le> distance (x # c) b + 1" by (rule distance_Cons_right)
    have 3: "distance (x # c) (y # b) \<le> distance c b + (if x = y then 0 else 1)" by simp
    have e: "distance (x # a) (y # b) = distance a (y # b) + 1 \<or>
      distance (x # a) (y # b) = distance (x # a) b + 1 \<or>
      distance (x # a) (y # b) = distance a b + (if x = y then 0 else 1)"
      by (simp add: min_def)
    from 1 2 3 e Cons step.IH [of "y # b"] step.IH [of b] show ?case
      by (cases "x = y") (simp_all only: if_True if_False, linarith+)
  qed
qed

lemma apply_edit_one_edit: "apply_edit e a = Some c \<Longrightarrow> one_edit a c"
proof (cases e)
  case (Insertion i x)
  assume h: "apply_edit e a = Some c"
  have "i \<le> length a \<Longrightarrow> one_edit a (take i a @ x # drop i a)" for a
  proof (induction i arbitrary: a)
    case 0
    show ?case by (simp add: one_edit.ins)
  next
    case (Suc i)
    from Suc.prems obtain y a' where a: "a = y # a'" by (cases a) auto
    with Suc show ?case by (simp add: one_edit.step)
  qed
  with h Insertion show ?thesis by (auto split: if_splits)
next
  case (Deletion i)
  assume h: "apply_edit e a = Some c"
  have "i < length a \<Longrightarrow> one_edit a (take i a @ drop (Suc i) a)" for a
  proof (induction i arbitrary: a)
    case 0
    then obtain y a' where a: "a = y # a'" by (cases a) auto
    then show ?case by (simp add: one_edit.del)
  next
    case (Suc i)
    from Suc.prems obtain y a' where a: "a = y # a'" by (cases a) auto
    with Suc show ?case by (simp add: one_edit.step)
  qed
  with h Deletion show ?thesis by (auto split: if_splits)
next
  case (Substitution i x)
  assume h: "apply_edit e a = Some c"
  have "i < length a \<Longrightarrow> one_edit a (a[i := x])" for a
  proof (induction i arbitrary: a)
    case 0
    then obtain y a' where a: "a = y # a'" by (cases a) auto
    then show ?case by (simp add: one_edit.sub)
  next
    case (Suc i)
    from Suc.prems obtain y a' where a: "a = y # a'" by (cases a) auto
    with Suc show ?case by (simp add: one_edit.step)
  qed
  with h Substitution show ?thesis by (auto split: if_splits)
qed

lemma distance_apply_edit:
  assumes "apply_edit e a = Some c"
  shows "distance a b \<le> distance c b + 1"
proof -
  from assms have "one_edit c a" by (blast intro: apply_edit_one_edit one_edit_sym)
  then show ?thesis by (rule distance_one_edit)
qed

lemma distance_lower: "apply_edits es a = Some b \<Longrightarrow> distance a b \<le> length es"
proof (induction es arbitrary: a)
  case Nil
  then show ?case by (simp add: distance_same)
next
  case (Cons e es)
  then obtain c where c: "apply_edit e a = Some c" and r: "apply_edits es c = Some b"
    by (auto split: option.splits)
  from Cons.IH [OF r] distance_apply_edit [OF c, of b] show ?case by simp
qed

lemma apply_edit_shift:
  "apply_edit (shift_edit e) (x # s) = map_option ((#) x) (apply_edit e s)"
  by (cases e) simp_all

lemma apply_edits_shift:
  "apply_edits (map shift_edit es) (x # s) = map_option ((#) x) (apply_edits es s)"
proof (induction es arbitrary: s)
  case Nil
  show ?case by simp
next
  case (Cons e es)
  show ?case
    by (cases "apply_edit e s") (simp_all add: apply_edit_shift Cons)
qed

lemma apply_edits_append:
  "apply_edits (es @ fs) s =
     (case apply_edits es s of None \<Rightarrow> None | Some s' \<Rightarrow> apply_edits fs s')"
  by (induction es arbitrary: s) (simp_all split: option.splits)

lemma script_insert_all: "\<exists>es. apply_edits es [] = Some b \<and> length es = length b"
proof (induction b)
  case Nil
  have "apply_edits [] [] = Some ([] :: pystr)" by simp
  then show ?case by (intro exI [of _ "[]"]) simp
next
  case (Cons y b)
  then obtain es where es: "apply_edits es [] = Some b" "length es = length b" by blast
  have "apply_edits (Insertion 0 y # map shift_edit es) [] = Some (y # b)"
    using es by (simp add: apply_edits_shift)
  moreover have "length (Insertion 0 y # map shift_edit es) = length (y # b)"
    using es by simp
  ultimately show ?case by blast
qed

lemma script_delete_all: "\<exists>es. apply_edits es a = Some [] \<and> length es = length a"
proof (induction a)
  case Nil
  have "apply_edits [] [] = Some ([] :: pystr)" by simp
  then show ?case by (intro exI [of _ "[]"]) simp
next
  case (Cons x a)
  then obtain es where es: "apply_edits es a = Some []" "length es = length a" by blast
  have "apply_edits (Deletion 0 # es) (x # a) = Some []" using es by simp
  moreover have "length (Deletion 0 # es) = length (x # a)" using es by simp
  ultimately show ?case by blast
qed

lemma distance_upper: "\<exists>es. apply_edits es a = Some b \<and> length es = distance a b"
proof (induction a b rule: distance.induct)
  case (1 b)
  show ?case using script_insert_all [of b] by simp
next
  case (2 x a)
  show ?case using script_delete_all [of "x # a"] by simp
next
  case (3 x a y b)
  let ?d = "distance (x # a) (y # b)"
  have e: "?d = distance a (y # b) + 1 \<or> ?d = distance (x # a) b + 1 \<or>
      ?d = distance a b + (if x = y then 0 else 1)"
    by (simp add: min_def)
  then consider (del) "?d = distance a (y # b) + 1" | (ins) "?d = distance (x # a) b + 1"
    | (sub) "?d = distance a b + (if x = y then 0 else 1)" by blast
  then show ?case
  proof cases
    case del
    from 3(1) obtain es where es: "apply_edits es a = Some (y # b)"
      "length es = distance a (y # b)" by blast
    have "apply_edits (Deletion 0 # es) (x # a) = Some (y # b)" using es by simp
    moreover have "length (Deletion 0 # es) = ?d" using es del by simp
    ultimately show ?thesis by blast
  next
    case ins
    from 3(2) obtain es where es: "apply_edits es (x # a) = Some b"
      "length es = distance (x # a) b" by blast
    have "apply_edits (es @ [Insertion 0 y]) (x # a) = Some (y # b)"
      using es by (simp add: apply_edits_append)
    moreover have "length (es @ [Insertion 0 y]) = ?d" using es ins by simp
    ultimately show ?thesis by blast
  next
    case sub
    from 3(3) obtain es where es: "apply_edits es a = Some b"
      "length es = distance a b" by blast
    show ?thesis
    proof (cases "x = y")
      case True
      have "apply_edits (map shift_edit es) (x # a) = Some (y # b)"
        using es True by (simp add: apply_edits_shift)
      moreover have "length (map shift_edit es) = ?d" using es sub True by simp
      ultimately show ?thesis by blast
    next
      case False
      have "apply_edits (Substitution 0 y # map shift_edit es) (x # a) = Some (y # b)"
        using es by (simp add: apply_edits_shift)
      moreover have "length (Substitution 0 y # map shift_edit es) = ?d"
        using es sub False by simp
      ultimately show ?thesis by blast
    qed
  qed
qed

section \<open>Facts about the hard-coded vocabulary\<close>

lemma CORRECT_WORDS_set:
  "set CORRECT_WORDS = set HINDI_CORE_WORDS \<union> set CODE_SWITCHED_WORDS"
  by (simp add: CORRECT_WORDS_def)

lemma HINDI_len: "\<forall>v \<in> set HINDI_CORE_WORDS. 2 \<le> length v"
  by (simp add: HINDI_CORE_WORDS_def)

lemma CODE_len: "\<forall>v \<in> set CODE_SWITCHED_WORDS. 2 \<le> length v"
  by (simp add: CODE_SWITCHED_WORDS_def)

section \<open>Claims\<close>

text \<open>
  C8: the edit distance between the empty string and any string \<open>s\<close> is the length of
  \<open>s\<close>.
\<close>

theorem distance_empty_left: "distance [] s = length s"
  by simp

text \<open>
  C1: a token that is a member of the vocabulary is classified as correct spelling. The
  membership test comes first: such a token is also within edit distance 1 of a
  vocabulary entry (itself, at distance 0), so the loop would flag it, and the label is
  correct spelling all the same.
\<close>

theorem classify_member:
  "t \<in> set V \<Longrightarrow>
     classify_word t V = CorrectSpelling \<and>
     hasNeighborWithinDistance V t MAX_EDIT_DISTANCE"
proof
  assume mem: "t \<in> set V"
  then show "classify_word t V = CorrectSpelling"
    by (simp add: classify_word_eq)
  have "distance t t \<le> MAX_EDIT_DISTANCE"
    by (simp add: distance_same)
  with mem show "hasNeighborWithinDistance V t MAX_EDIT_DISTANCE"
    unfolding hasNeighborWithinDistance_def typo_loop_flag by blast
qed

theorem classify_member_witness:
  "[0x92C, 0x93E, 0x924] \<in> set [[0x92C, 0x93E, 0x924], [0x915, 0x93E, 0x92E]] \<and>
   classify_word [0x92C, 0x93E, 0x924] [[0x92C, 0x93E, 0x924], [0x915, 0x93E, 0x92E]]
     = CorrectSpelling \<and>
   hasNeighborWithinDistance [[0x92C, 0x93E, 0x924], [0x915, 0x93E, 0x92E]]
     [0x92C, 0x93E, 0x924] MAX_EDIT_DISTANCE"
  using classify_member [of "[0x92C, 0x93E, 0x924]"
      "[[0x92C, 0x93E, 0x924], [0x915, 0x93E, 0x92E]]"]
  by simp

text \<open>
  C2: a token that is not a member of the vocabulary is classified as incorrect
  spelling, whether or not an entry is within edit distance 1 of it, and also when the
  vocabulary is empty.
\<close>

theorem classify_non_member:
  "t \<notin> set V \<Longrightarrow> classify_word t V = IncorrectSpelling"
  by (simp add: classify_word_eq)

theorem classify_non_member_witness:
  "[0x915, 0x92E] \<notin> set [[0x915, 0x93E, 0x92E]] \<and>
   hasNeighborWithinDistance [[0x915, 0x93E, 0x92E]] [0x915, 0x92E] 1 \<and>
   classify_word [0x915, 0x92E] [[0x915, 0x93E, 0x92E]] = IncorrectSpelling \<and>
   [120, 121, 122, 49, 50, 51] \<notin> set [[0x92D, 0x93E, 0x930, 0x924]] \<and>
   \<not> hasNeighborWithinDistance [[0x92D, 0x93E, 0x930, 0x924]] [120, 121, 122, 49, 50, 51] 1 \<and>
   classify_word [120, 121, 122, 49, 50, 51] [[0x92D, 0x93E, 0x930, 0x924]]
     = IncorrectSpelling \<and>
   [120] \<notin> set [] \<and>
   \<not> hasNeighborWithinDistance [] [120] 1 \<and>
   classify_word [120] [] = IncorrectSpelling"
  using classify_non_member [of "[0x915, 0x92E]" "[[0x915, 0x93E, 0x92E]]"]
    classify_non_member [of "[120, 121, 122, 49, 50, 51]" "[[0x92D, 0x93E, 0x930, 0x924]]"]
    classify_non_member [of "[120]" "[]"]
  by (simp add: hasNeighborWithinDistance_def)

text \<open>
  C3: for every token, the empty string and single-character tokens included, and
  every vocabulary, \<^verbatim>\<open>classify_word\<close> returns one of the two labels and raises
  nothing. With the distance of the spec, which is defined on every pair of strings,
  the run with exceptions ends in the label of \<open>classify_word\<close>. More generally, for
  any imported distance, the run ends in a label whenever the distance returns a
  number for the token and every member of the vocabulary; an exception of the
  distance is the only one that can escape (\<open>classify_word_exc_raises\<close>).
\<close>

theorem classify_never_raises:
  "classify_word_exc distance_call t V = Inr (classify_word t V) \<and>
   (classify_word t V = CorrectSpelling \<or> classify_word t V = IncorrectSpelling) \<and>
   ((\<forall>v \<in> set V. \<exists>n. dist t v = Inr n) \<longrightarrow>
      classify_word_exc dist t V = Inr CorrectSpelling \<or>
      classify_word_exc dist t V = Inr IncorrectSpelling)"
  using classify_word_exc_distance_call [of t V] classify_word_exc_returns [of V dist t]
  by (simp add: classify_word_eq)

theorem classify_never_raises_witness:
  "classify_word_exc distance_call [] [[0x915, 0x93E, 0x92E], [0x915, 0x93F]]
     = Inr IncorrectSpelling \<and>
   classify_word_exc distance_call [0x915] [[0x915, 0x93E, 0x92E], [0x915, 0x93F]]
     = Inr IncorrectSpelling \<and>
   classify_word_exc distance_call [0x915, 0x93F] [[0x915, 0x93E, 0x92E], [0x915, 0x93F]]
     = Inr CorrectSpelling \<and>
   classify_word_exc distance_call [] [] = Inr IncorrectSpelling \<and>
   distance_call [] [0x915, 0x93E, 0x92E] = Inr 3 \<and>
   distance_call [] [0x915, 0x93F] = Inr 2"
  using
    classify_never_raises [of "[]" "[[0x915, 0x93E, 0x92E], [0x915, 0x93F]]" distance_call]
    classify_never_raises [of "[0x915]" "[[0x915, 0x93E, 0x92E], [0x915, 0x93F]]" distance_call]
    classify_never_raises [of "[0x915, 0x93F]" "[[0x915, 0x93E, 0x92E], [0x915, 0x93F]]" distance_call]
    classify_never_raises [of "[]" "[]" distance_call]
  by (simp add: classify_word_eq distance_call_def)

text \<open>
  C4: the label depends on the token and on the vocabulary as a set only. Two runs that
  visit the same vocabulary in different orders give the same label, and a call made
  before, with any token, changes nothing for the next one.
\<close>

theorem classify_deterministic:
  "set V1 = set V2 \<Longrightarrow>
     classify_word t V1 = classify_word t V2 \<and>
     classify_word t (snd (classify_word_st t' V1)) = classify_word t V1"
proof
  assume "set V1 = set V2"
  then show "classify_word t V1 = classify_word t V2"
    by (simp add: classify_word_eq)
  have "snd (classify_word_st t' V1) = V1"
    by (rule classify_word_st_set)
  then show "classify_word t (snd (classify_word_st t' V1)) = classify_word t V1"
    by simp
qed

theorem classify_deterministic_witness:
  "set [[0x92C, 0x93E, 0x924], [0x915, 0x93E, 0x92E]]
     = set [[0x915, 0x93E, 0x92E], [0x92C, 0x93E, 0x924 :: nat]] \<and>
   classify_word [0x915, 0x92E] [[0x92C, 0x93E, 0x924], [0x915, 0x93E, 0x92E]]
     = classify_word [0x915, 0x92E] [[0x915, 0x93E, 0x92E], [0x92C, 0x93E, 0x924]] \<and>
   classify_word [0x915, 0x92E]
       (snd (classify_word_st [0x92C, 0x93E, 0x924]
          [[0x92C, 0x93E, 0x924], [0x915, 0x93E, 0x92E]]))
     = classify_word [0x915, 0x92E] [[0x92C, 0x93E, 0x924], [0x915, 0x93E, 0x92E]]"
proof -
  have h: "set [[0x92C, 0x93E, 0x924], [0x915, 0x93E, 0x92E]]
      = set [[0x915, 0x93E, 0x92E], [0x92C, 0x93E, 0x924 :: nat]]"
    by (simp add: insert_commute)
  show ?thesis
    using h classify_deterministic [OF h, of "[0x915, 0x92E]" "[0x92C, 0x93E, 0x924]"]
    by simp
qed

text \<open>
  C5: the neighbour search answers whether some member of the vocabulary is within the
  bound of the token, for every bound, and so gives the same answer for every order in
  which the members are visited.
\<close>

theorem hasNeighbor_exists:
  "hasNeighborWithinDistance V t d = (\<exists>v \<in> set V. distance t v \<le> d) \<and>
   (\<forall>V'. set V' = set V \<longrightarrow>
      hasNeighborWithinDistance V' t d = hasNeighborWithinDistance V t d)"
  by (simp add: hasNeighborWithinDistance_def typo_loop_flag)

theorem hasNeighbor_exists_witness:
  "hasNeighborWithinDistance [[0x92C, 0x93E, 0x924], [0x915, 0x93E, 0x92E]] [0x915, 0x92E] 1 \<and>
   (\<exists>v \<in> set [[0x92C, 0x93E, 0x924], [0x915, 0x93E, 0x92E]]. distance [0x915, 0x92E] v \<le> 1) \<and>
   hasNeighborWithinDistance [[0x915, 0x93E, 0x92E], [0x92C, 0x93E, 0x924]] [0x915, 0x92E] 1 \<and>
   \<not> hasNeighborWithinDistance [[0x92C, 0x93E, 0x924], [0x915, 0x93E, 0x92E]] [0x915, 0x92E] 0"
proof -
  have h: "set [[0x915, 0x93E, 0x92E], [0x92C, 0x93E, 0x924 :: nat]]
      = set [[0x92C, 0x93E, 0x924], [0x915, 0x93E, 0x92E]]"
    by (simp add: insert_commute)
  have d: "distance [0x915, 0x92E] [0x915, 0x93E, 0x92E] = 1"
    "distance [0x915, 0x92E] [0x92C, 0x93E, 0x924] = 3"
    by simp_all
  show ?thesis
    using h d
      hasNeighbor_exists [of "[[0x92C, 0x93E, 0x924], [0x915, 0x93E, 0x92E]]" "[0x915, 0x92E]" 1]
      hasNeighbor_exists [of "[[0x92C, 0x93E, 0x924], [0x915, 0x93E, 0x92E]]" "[0x915, 0x92E]" 0]
    by simp
qed

text \<open>C7: the edit distance is symmetric.\<close>

theorem distance_symmetric: "distance a b = distance b a"
proof (induction a b rule: distance.induct)
  case (1 b)
  show ?case by (cases b) simp_all
next
  case (2 x a)
  show ?case by simp
next
  case (3 x a y b)
  then show ?case
    by (simp add: min.commute min.left_commute eq_commute)
qed

text \<open>
  C9: the set object that \<^verbatim>\<open>classify_word\<close> was called with is the same after the
  call: no entry is added, removed or changed.
\<close>

theorem classify_keeps_vocabulary: "snd (classify_word_st t V) = V"
  by (rule classify_word_st_set)

text \<open>
  C6: the distance used by the classification is the Levenshtein distance of the
  glossary. Some script of single-character insertions, deletions and substitutions
  turns \<open>a\<close> into \<open>b\<close> in exactly \<open>distance a b\<close> edits, and no script that
  turns \<open>a\<close> into \<open>b\<close> is shorter. The strings are compared code point by code
  point as they are given: the distance is 0 for equal sequences of code points only.
\<close>

theorem distance_is_minimal_edit_count:
  "(\<exists>es. apply_edits es a = Some b \<and> length es = distance a b) \<and>
   (\<forall>es. apply_edits es a = Some b \<longrightarrow> distance a b \<le> length es) \<and>
   (distance a b = 0 \<longleftrightarrow> a = b)"
proof -
  have up: "\<exists>es. apply_edits es a = Some b \<and> length es = distance a b"
    by (rule distance_upper)
  have low: "\<forall>es. apply_edits es a = Some b \<longrightarrow> distance a b \<le> length es"
    by (simp add: distance_lower)
  have zero: "distance a b = 0 \<longleftrightarrow> a = b"
  proof
    assume "distance a b = 0"
    with up obtain es where "apply_edits es a = Some b" "length es = 0" by auto
    then show "a = b" by simp
  next
    assume "a = b"
    then show "distance a b = 0" by (simp add: distance_same)
  qed
  from up low zero show ?thesis by blast
qed

theorem distance_is_minimal_edit_count_witness:
  "apply_edits [Insertion 1 0x93E] [0x915, 0x92E] = Some [0x915, 0x93E, 0x92E] \<and>
   distance [0x915, 0x92E] [0x915, 0x93E, 0x92E] \<le> length [Insertion 1 0x93E] \<and>
   distance [0x915, 0x92E] [0x915, 0x93E, 0x92E] = 1 \<and>
   apply_edits [Substitution 0 0x41] [0x61] = Some [0x41] \<and>
   distance [0x61] [0x41] = 1 \<and>
   apply_edits [Deletion 1, Substitution 0 0xE9] [0x65, 0x301] = Some [0xE9] \<and>
   distance [0x65, 0x301] [0xE9] = 2"
proof -
  have a: "apply_edits [Insertion 1 0x93E] [0x915, 0x92E] = Some [0x915, 0x93E, 0x92E]"
    by simp
  have b: "apply_edits [Substitution 0 0x41] [0x61] = Some [0x41]"
    by simp
  have c: "apply_edits [Deletion 1, Substitution 0 0xE9] [0x65, 0x301] = Some [0xE9]"
    by simp
  show ?thesis
    using a b c
      distance_is_minimal_edit_count [of "[0x915, 0x92E]" "[0x915, 0x93E, 0x92E]"]
    by simp
qed

text \<open>
  C10: the empty string is classified as incorrect spelling against the hard-coded
  vocabulary, in whatever order the set is visited: it is not a member, every member
  has at least 2 code points, and so none is within \<open>MAX_EDIT_DISTANCE\<close> of it.
\<close>

theorem classify_empty_hardcoded:
  "[] \<notin> set CORRECT_WORDS \<and>
   (\<forall>v \<in> set CORRECT_WORDS. 2 \<le> length v \<and> \<not> distance [] v \<le> MAX_EDIT_DISTANCE) \<and>
   (\<forall>V. set V = set CORRECT_WORDS \<longrightarrow> classify_word [] V = IncorrectSpelling)"
proof -
  have len: "\<forall>v \<in> set CORRECT_WORDS. 2 \<le> length v"
    using HINDI_len CODE_len by (auto simp: CORRECT_WORDS_set)
  then have nmem: "[] \<notin> set CORRECT_WORDS" by fastforce
  from len have far: "\<forall>v \<in> set CORRECT_WORDS. \<not> distance [] v \<le> MAX_EDIT_DISTANCE"
    by (fastforce simp: MAX_EDIT_DISTANCE_def)
  from nmem have "\<forall>V. set V = set CORRECT_WORDS \<longrightarrow> classify_word [] V = IncorrectSpelling"
    by (simp add: classify_word_eq)
  with len nmem far show ?thesis by blast
qed

theorem classify_empty_hardcoded_witness:
  "[0x915, 0x93F] \<in> set CORRECT_WORDS \<and> 2 \<le> length [0x915 :: nat, 0x93F] \<and>
   \<not> distance [] [0x915, 0x93F] \<le> MAX_EDIT_DISTANCE \<and>
   set CORRECT_WORDS = set CORRECT_WORDS \<and>
   classify_word [] CORRECT_WORDS = IncorrectSpelling"
proof -
  have m: "[0x915, 0x93F] \<in> set CORRECT_WORDS"
    by (simp add: CORRECT_WORDS_set HINDI_CORE_WORDS_def)
  show ?thesis
    using m classify_empty_hardcoded by (simp add: MAX_EDIT_DISTANCE_def)
qed

end
